theory Spec2Isabelle
  imports Main "HOL-Library.Char_ord" "HOL-Library.List_Lexorder"
begin

section \<open>Tasks (lib/database.ts, interface Task)\<close>

text \<open>
  The persistent entity. The identifier field is called \<open>task_id\<close> because \<open>id\<close> is the
  identity function of HOL. The nullable fields \<open>due_date\<close> and \<open>due_time\<close>
  (\<^verbatim>\<open>string | null\<close>) are options; \<open>created_at\<close> and \<open>updated_at\<close> are the ISO strings the
  source stores.
\<close>

record task =
  task_id :: string
  title :: string
  description :: string
  due_date :: "string option"
  due_time :: "string option"
  completed :: bool
  reminder_shown :: bool
  created_at :: string
  updated_at :: string

text \<open>
  \<^verbatim>\<open>Partial<Task>\<close>: every key may be absent (\<open>None\<close>). For the nullable fields a present
  key carries \<open>None\<close> for \<^verbatim>\<open>null\<close>. A key that is present with the value
  \<^verbatim>\<open>undefined\<close> is not represented; no caller in the repository passes one.
\<close>

record task_updates =
  u_id :: "string option"
  u_title :: "string option"
  u_description :: "string option"
  u_due_date :: "string option option"
  u_due_time :: "string option option"
  u_completed :: "bool option"
  u_reminder_shown :: "bool option"
  u_created_at :: "string option"
  u_updated_at :: "string option"

definition noUpdates :: task_updates where
  "noUpdates = \<lparr> u_id = None, u_title = None, u_description = None, u_due_date = None,
     u_due_time = None, u_completed = None, u_reminder_shown = None, u_created_at = None,
     u_updated_at = None \<rparr>"

section \<open>The reminder hook (hooks/useReminders.ts)\<close>

text \<open>
  The two refs of the hook: \<open>checkedTasksRef\<close> (a \<^verbatim>\<open>Set<string>\<close>) and
  \<open>lastCheckTimeRef\<close> (milliseconds since the epoch, initially 0).
\<close>

record scanner =
  checkedTasks :: "string set"
  lastCheckTime :: int

definition initialScanner :: scanner where
  "initialScanner = \<lparr> checkedTasks = {}, lastCheckTime = 0 \<rparr>"

text \<open>
  What a run of \<open>checkReminders\<close> does to the outside: it calls \<open>onReminderTriggered(task)\<close>
  and \<open>updateTask(id, updates)\<close>. The calls are recorded in the order in which they are made.
  The callback is taken to return normally, and the promise of \<open>updateTask\<close> is not awaited
  by the source, so neither outcome flows back into the scan.
\<close>

datatype effect = Notify task | UpdateTask string task_updates

fun effect_task_id :: "effect \<Rightarrow> string" where
  "effect_task_id (Notify t) = task_id t"
| "effect_task_id (UpdateTask k u) = k"

text \<open>JavaScript truthiness of a \<^verbatim>\<open>string | null\<close>: \<^verbatim>\<open>null\<close> and the empty string are falsy.\<close>

definition truthy :: "string option \<Rightarrow> bool" where
  "truthy v = (case v of None \<Rightarrow> False | Some s \<Rightarrow> s \<noteq> [])"

text \<open>
  The body of the \<^verbatim>\<open>forEach\<close> callback (lines 27 to 52 of the hook). The parameter \<open>dueMs\<close>
  stands for lines 38 to 42: splitting the two strings, \<^verbatim>\<open>Number\<close>, the local-time
  \<^verbatim>\<open>Date\<close> constructor and \<^verbatim>\<open>getTime()\<close>. Its value depends on the time zone of the host;
  \<open>None\<close> is \<^verbatim>\<open>NaN\<close> (an invalid date), for which both comparisons of line 48 are false.
  The callback gets the handled set as it is when the task is visited and returns the new
  set with the calls it made.
\<close>

definition visitTask ::
  "(string \<Rightarrow> string \<Rightarrow> int option) \<Rightarrow> int \<Rightarrow> string set \<Rightarrow> task \<Rightarrow> string set \<times> effect list"
where
  "visitTask dueMs currentTime checked t =
    (if completed t \<or> reminder_shown t \<or> \<not> truthy (due_date t) \<or> \<not> truthy (due_time t)
     then (checked, [])
     else if task_id t \<in> checked then (checked, [])
     else (case (due_date t, due_time t) of
        (Some d, Some tm) \<Rightarrow>
          (case dueMs d tm of
             None \<Rightarrow> (checked, [])
           | Some dueTimeMs \<Rightarrow>
               (let timeDiffMs = \<bar>dueTimeMs - currentTime\<bar> in
                if timeDiffMs \<le> 60000 \<and> dueTimeMs \<le> currentTime
                then (insert (task_id t) checked,
                      [Notify t,
                       UpdateTask (task_id t) (noUpdates\<lparr> u_reminder_shown := Some True \<rparr>)])
                else (checked, [])))
      | _ \<Rightarrow> (checked, [])))"

text \<open>\<^verbatim>\<open>tasks.forEach\<close>: the tasks are visited in order, each seeing the set left by the one before.\<close>

fun forEachTask ::
  "(string set \<Rightarrow> task \<Rightarrow> string set \<times> effect list) \<Rightarrow> task list \<Rightarrow> string set
     \<Rightarrow> string set \<times> effect list"
where
  "forEachTask f [] checked = (checked, [])"
| "forEachTask f (t # rest) checked =
     (case f checked t of (c1, out1) \<Rightarrow>
        (case forEachTask f rest c1 of (c2, out2) \<Rightarrow> (c2, out1 @ out2)))"

text \<open>
  \<open>checkReminders\<close> (lines 15 to 54): the throttle of line 20 returns before anything is
  written; otherwise the time of the check is stored and the tasks are scanned.
\<close>

definition checkReminders ::
  "(string \<Rightarrow> string \<Rightarrow> int option) \<Rightarrow> task list \<Rightarrow> int \<Rightarrow> scanner \<Rightarrow> scanner \<times> effect list"
where
  "checkReminders dueMs tasks currentTime s =
    (if currentTime - lastCheckTime s < 1000 then (s, [])
     else (case forEachTask (visitTask dueMs currentTime) tasks (checkedTasks s) of
        (checked', out) \<Rightarrow> (\<lparr> checkedTasks = checked', lastCheckTime = currentTime \<rparr>, out)))"

text \<open>
  The second effect (lines 66 to 74): the ids of the completed tasks are deleted from the
  handled set.
\<close>

definition resetCompleted :: "task list \<Rightarrow> scanner \<Rightarrow> scanner" where
  "resetCompleted tasks s =
     s\<lparr> checkedTasks :=
          fold (\<lambda>k c. c - {k}) (map task_id (filter completed tasks)) (checkedTasks s) \<rparr>"

text \<open>
  What happens to the hook during the life of the component: \<open>checkReminders\<close> is called
  with the task list of the current closure (by the timer or as the initial check of the
  first effect), and the second effect runs for a task list. When the task list changes,
  React runs the first effect, with its initial check, and then the second; between
  renders the timer calls \<open>checkReminders\<close>. The theorems quantify over all sequences of
  the two events, which covers every such schedule.
\<close>

datatype hook_event = Check "task list" int | ResetCompleted "task list"

fun hookStep ::
  "(string \<Rightarrow> string \<Rightarrow> int option) \<Rightarrow> hook_event \<Rightarrow> scanner \<Rightarrow> scanner \<times> effect list"
where
  "hookStep dueMs (Check tasks currentTime) s = checkReminders dueMs tasks currentTime s"
| "hookStep dueMs (ResetCompleted tasks) s = (resetCompleted tasks s, [])"

fun runHook ::
  "(string \<Rightarrow> string \<Rightarrow> int option) \<Rightarrow> hook_event list \<Rightarrow> scanner \<Rightarrow> scanner \<times> effect list"
where
  "runHook dueMs [] s = (s, [])"
| "runHook dueMs (ev # evs) s =
     (case hookStep dueMs ev s of (s1, out1) \<Rightarrow>
        (case runHook dueMs evs s1 of (s2, out2) \<Rightarrow> (s2, out1 @ out2)))"

section \<open>The task store (lib/database.ts, class DatabaseService)\<close>

text \<open>
  The object store \<^verbatim>\<open>tasks\<close> of IndexedDB, created with \<^verbatim>\<open>keyPath: 'id'\<close>: at most one record
  per key, held in ascending key order (strings compare unit by unit), which is the order
  \<^verbatim>\<open>getAll()\<close> returns. \<^verbatim>\<open>add\<close> refuses a key that is present, \<^verbatim>\<open>put\<close> replaces it,
  \<^verbatim>\<open>delete\<close> succeeds whether or not the key is present.
\<close>

type_synonym store = "task list"

definition store_get :: "string \<Rightarrow> store \<Rightarrow> task option" where
  "store_get k st = find (\<lambda>x. task_id x = k) st"

definition store_put :: "task \<Rightarrow> store \<Rightarrow> store" where
  "store_put t st = insort_key task_id t (filter (\<lambda>x. task_id x \<noteq> task_id t) st)"

definition store_delete :: "string \<Rightarrow> store \<Rightarrow> store" where
  "store_delete k st = filter (\<lambda>x. task_id x \<noteq> k) st"

text \<open>
  What the platform does during one call: whether \<^verbatim>\<open>indexedDB.open\<close> succeeds (\<open>getDb\<close>
  resolves), and whether the read and the write requests of the transaction succeed.
\<close>

record io =
  opens :: bool
  reads :: bool
  writes :: bool

definition allOk :: io where
  "allOk = \<lparr> opens = True, reads = True, writes = True \<rparr>"

text \<open>
  The rejections of the promises: the error of \<^verbatim>\<open>indexedDB.open\<close>, the error of a request,
  the constraint error of \<^verbatim>\<open>add\<close> on a key that is present, and
  \<^verbatim>\<open>new Error('Task not found')\<close>.
\<close>

datatype db_error = OpenError | RequestError | ConstraintError | TaskNotFound

text \<open>
  The comparator of \<open>getAllTasks\<close>,
  \<^verbatim>\<open>new Date(b.created_at).getTime() - new Date(a.created_at).getTime()\<close>. The host function
  \<open>dateMs\<close> is \<^verbatim>\<open>new Date(s).getTime()\<close>, with \<open>None\<close> for \<^verbatim>\<open>NaN\<close>; \<^verbatim>\<open>sort\<close> reads a
  comparator result of \<^verbatim>\<open>NaN\<close> as 0.
\<close>

definition compareCreated :: "(string \<Rightarrow> int option) \<Rightarrow> task \<Rightarrow> task \<Rightarrow> int" where
  "compareCreated dateMs a b =
    (case (dateMs (created_at b), dateMs (created_at a)) of
       (Some tb, Some ta) \<Rightarrow> tb - ta
     | _ \<Rightarrow> 0)"

text \<open>
  \<^verbatim>\<open>Array.prototype.sort\<close> with a comparator: a stable sort, written as insertion from the
  right. An element goes before the first element it does not compare greater than, so
  elements that compare equal keep their order.
\<close>

fun insertSorted :: "('a \<Rightarrow> 'a \<Rightarrow> int) \<Rightarrow> 'a \<Rightarrow> 'a list \<Rightarrow> 'a list" where
  "insertSorted cmp x [] = [x]"
| "insertSorted cmp x (y # ys) =
     (if cmp x y \<le> 0 then x # y # ys else y # insertSorted cmp x ys)"

definition jsSort :: "('a \<Rightarrow> 'a \<Rightarrow> int) \<Rightarrow> 'a list \<Rightarrow> 'a list" where
  "jsSort cmp xs = foldr (insertSorted cmp) xs []"

definition getAllTasks :: "io \<Rightarrow> (string \<Rightarrow> int option) \<Rightarrow> store \<Rightarrow> db_error + task list" where
  "getAllTasks env dateMs st =
    (if \<not> opens env then Inl OpenError
     else if \<not> reads env then Inl RequestError
     else Inr (jsSort (compareCreated dateMs) st))"

text \<open>
  The argument of \<open>addTask\<close>; the optional keys are options. \<^verbatim>\<open>x || ''\<close> and \<^verbatim>\<open>x || null\<close>
  replace an absent or empty string.
\<close>

record task_data =
  td_title :: string
  td_description :: "string option"
  td_due_date :: "string option"
  td_due_time :: "string option"

definition orEmpty :: "string option \<Rightarrow> string" where
  "orEmpty v = (case v of None \<Rightarrow> [] | Some s \<Rightarrow> s)"

definition orNull :: "string option \<Rightarrow> string option" where
  "orNull v = (case v of None \<Rightarrow> None | Some s \<Rightarrow> if s = [] then None else Some s)"

text \<open>
  \<open>addTask\<close>. The host supplies \<open>stamp\<close> (the digits of \<^verbatim>\<open>Date.now()\<close>), \<open>rnd\<close> (the
  nine characters taken from \<^verbatim>\<open>Math.random().toString(36)\<close>) and \<open>nowIso\<close>
  (\<^verbatim>\<open>new Date().toISOString()\<close>). The result is the task and the new store.
\<close>

definition addTask ::
  "io \<Rightarrow> string \<Rightarrow> string \<Rightarrow> string \<Rightarrow> task_data \<Rightarrow> store \<Rightarrow> db_error + task \<times> store"
where
  "addTask env stamp rnd nowIso taskData st =
    (if \<not> opens env then Inl OpenError
     else
       (let t = \<lparr> task_id = ''task_'' @ stamp @ ''_'' @ rnd,
                  title = td_title taskData,
                  description = orEmpty (td_description taskData),
                  due_date = orNull (td_due_date taskData),
                  due_time = orNull (td_due_time taskData),
                  completed = False,
                  reminder_shown = False,
                  created_at = nowIso,
                  updated_at = nowIso \<rparr>
        in if \<not> writes env then Inl RequestError
           else if store_get (task_id t) st \<noteq> None then Inl ConstraintError
           else Inr (t, insort_key task_id t st)))"

text \<open>The object spread \<^verbatim>\<open>{...existingTask, ...updates}\<close>: a key of \<open>updates\<close> that is present wins.\<close>

definition spread :: "task \<Rightarrow> task_updates \<Rightarrow> task" where
  "spread existing updates =
    \<lparr> task_id = (case u_id updates of None \<Rightarrow> task_id existing | Some v \<Rightarrow> v),
      title = (case u_title updates of None \<Rightarrow> title existing | Some v \<Rightarrow> v),
      description = (case u_description updates of None \<Rightarrow> description existing | Some v \<Rightarrow> v),
      due_date = (case u_due_date updates of None \<Rightarrow> due_date existing | Some v \<Rightarrow> v),
      due_time = (case u_due_time updates of None \<Rightarrow> due_time existing | Some v \<Rightarrow> v),
      completed = (case u_completed updates of None \<Rightarrow> completed existing | Some v \<Rightarrow> v),
      reminder_shown =
        (case u_reminder_shown updates of None \<Rightarrow> reminder_shown existing | Some v \<Rightarrow> v),
      created_at = (case u_created_at updates of None \<Rightarrow> created_at existing | Some v \<Rightarrow> v),
      updated_at = (case u_updated_at updates of None \<Rightarrow> updated_at existing | Some v \<Rightarrow> v) \<rparr>"

text \<open>
  \<open>updateTask\<close> (lines 97 to 130): the record is read, a missing record rejects with
  \<open>TaskNotFound\<close>, otherwise the merged record, with \<open>updated_at\<close> and \<open>id\<close> written after
  the spread, is put back.
\<close>

definition updateTask ::
  "io \<Rightarrow> string \<Rightarrow> string \<Rightarrow> task_updates \<Rightarrow> store \<Rightarrow> db_error + task \<times> store"
where
  "updateTask env nowIso k updates st =
    (if \<not> opens env then Inl OpenError
     else if \<not> reads env then Inl RequestError
     else (case store_get k st of
        None \<Rightarrow> Inl TaskNotFound
      | Some existingTask \<Rightarrow>
          (let updatedTask =
                 (spread existingTask updates)
                   \<lparr> updated_at := nowIso, task_id := task_id existingTask \<rparr>
           in if \<not> writes env then Inl RequestError
              else Inr (updatedTask, store_put updatedTask st))))"

text \<open>\<open>deleteTask\<close> (lines 132 to 148): the delete request is issued without a read.\<close>

definition deleteTask :: "io \<Rightarrow> string \<Rightarrow> store \<Rightarrow> db_error + store" where
  "deleteTask env k st =
    (if \<not> opens env then Inl OpenError
     else if \<not> writes env then Inl RequestError
     else Inr (store_delete k st))"

section \<open>The task list of the application (hooks/useTasks.ts)\<close>

text \<open>
  The durable store together with the React state of \<open>useTasks\<close>: the in-memory task list,
  which is the list the reminder hook scans, and the error that was last recorded (the
  source keeps its message).
\<close>

record app =
  db :: store
  tasks :: "task list"
  error :: "db_error option"

text \<open>
  \<open>updateTask\<close> of the hook (lines 44 to 56): on success the in-memory copy of the task is
  replaced and \<^verbatim>\<open>{ success: true }\<close> is returned; a rejection is caught, recorded, and
  \<^verbatim>\<open>{ success: false }\<close> is returned. The boolean is the \<open>success\<close> field.
\<close>

definition hook_updateTask ::
  "io \<Rightarrow> string \<Rightarrow> string \<Rightarrow> task_updates \<Rightarrow> app \<Rightarrow> app \<times> bool"
where
  "hook_updateTask env nowIso k updates a =
    (case updateTask env nowIso k updates (db a) of
       Inr (data, db') \<Rightarrow>
         (a\<lparr> db := db', tasks := map (\<lambda>t. if task_id t = k then data else t) (tasks a) \<rparr>, True)
     | Inl err \<Rightarrow> (a\<lparr> error := Some err \<rparr>, False))"

section \<open>The host clock used in the examples\<close>

text \<open>
  The hook and the store read dates through the host: the hook builds a local-time
  \<^verbatim>\<open>Date\<close> from the two due strings, the store compares \<^verbatim>\<open>new Date(created_at).getTime()\<close>.
  The general theorems below hold for every such host function. The examples need one
  host to compute with: a host whose time zone is UTC, reading components written as plain
  decimal digits. Components in any other spelling are treated as invalid here (JavaScript
  accepts more spellings); only the examples are computed on this host.
\<close>

definition digitValue :: "char \<Rightarrow> nat option" where
  "digitValue = map_of (zip ''0123456789'' [0, 1, 2, 3, 4, 5, 6, 7, 8, 9])"

fun decimal :: "nat \<Rightarrow> string \<Rightarrow> nat option" where
  "decimal acc [] = Some acc"
| "decimal acc (c # cs) =
     (case digitValue c of None \<Rightarrow> None | Some v \<Rightarrow> decimal (10 * acc + v) cs)"

definition parseDigits :: "string \<Rightarrow> int option" where
  "parseDigits s = (if s = [] then None else map_option int (decimal 0 s))"

text \<open>\<^verbatim>\<open>String.prototype.split\<close> with a separator of one character.\<close>

fun splitOn :: "char \<Rightarrow> string \<Rightarrow> string list" where
  "splitOn sep [] = [[]]"
| "splitOn sep (c # cs) =
     (if c = sep then [] # splitOn sep cs
      else (case splitOn sep cs of [] \<Rightarrow> [[c]] | w # ws \<Rightarrow> (c # w) # ws))"

text \<open>Days between 1970-01-01 and the given day of the proleptic Gregorian calendar.\<close>

definition daysFromCivil :: "int \<Rightarrow> int \<Rightarrow> int \<Rightarrow> int" where
  "daysFromCivil y m d =
    (let y1 = (if m \<le> 2 then y - 1 else y);
         era = y1 div 400;
         yoe = y1 - era * 400;
         doy = (153 * (if 2 < m then m - 3 else m + 9) + 2) div 5 + d - 1;
         doe = yoe * 365 + yoe div 4 - yoe div 100 + doy
     in era * 146097 + doe - 719468)"

text \<open>
  \<^verbatim>\<open>new Date(year, monthIndex, day, hours, minutes, 0).getTime()\<close> in the UTC zone: a year
  from 0 to 99 means 1900 plus that year, components out of range carry over, and a time
  beyond the range of \<^verbatim>\<open>Date\<close> is invalid.
\<close>

definition utcDate :: "int \<Rightarrow> int \<Rightarrow> int \<Rightarrow> int \<Rightarrow> int \<Rightarrow> int option" where
  "utcDate year monthIndex day hours minutes =
    (let yr = (if 0 \<le> year \<and> year \<le> 99 then 1900 + year else year);
         ms = (daysFromCivil (yr + monthIndex div 12) (monthIndex mod 12 + 1) 1 + (day - 1))
                * 86400000 + hours * 3600000 + minutes * 60000
     in if \<bar>ms\<bar> \<le> 8640000000000000 then Some ms else None)"

text \<open>Lines 38 to 42 of the hook on this host.\<close>

definition utcDueTimeMs :: "string \<Rightarrow> string \<Rightarrow> int option" where
  "utcDueTimeMs d tm =
    (case map parseDigits (splitOn CHR ''-'' d) of
       Some year # Some month # Some day # _ \<Rightarrow>
         (case map parseDigits (splitOn CHR '':'' tm) of
            Some hours # Some minutes # _ \<Rightarrow> utcDate year (month - 1) day hours minutes
          | _ \<Rightarrow> None)
     | _ \<Rightarrow> None)"

text \<open>
  \<^verbatim>\<open>new Date(s).getTime()\<close> for the strings \<^verbatim>\<open>toISOString()\<close> writes
  (\<^verbatim>\<open>YYYY-MM-DDTHH:mm:ss.sssZ\<close>); every other string is invalid on this host.
\<close>

definition isoMs :: "string \<Rightarrow> int option" where
  "isoMs s =
    (if length s = 24 \<and> map ((!) s) [4, 7, 10, 13, 16, 19, 23] = ''--T::.Z''
     then (case map parseDigits
                  [take 4 s, take 2 (drop 5 s), take 2 (drop 8 s), take 2 (drop 11 s),
                   take 2 (drop 14 s), take 2 (drop 17 s), take 3 (drop 20 s)] of
             [Some y, Some mo, Some d, Some h, Some mi, Some sec, Some ms] \<Rightarrow>
               (if 1 \<le> mo \<and> mo \<le> 12 \<and> 1 \<le> d \<and> d \<le> 31 \<and> h \<le> 23 \<and> mi \<le> 59 \<and> sec \<le> 59
                then Some (daysFromCivil y mo d * 86400000 + h * 3600000 + mi * 60000
                           + sec * 1000 + ms)
                else None)
           | _ \<Rightarrow> None)
     else None)"

section \<open>The specification's predicates\<close>

text \<open>
  The eligibility predicate in the words of the specification, to be compared with what
  \<open>checkReminders\<close> does: both due fields present (neither \<^verbatim>\<open>null\<close> nor the empty string), not
  completed, no reminder shown, the id not in the handled set, and the combined due
  timestamp \<open>T\<close> with \<open>T \<le> now\<close> and \<open>now - T \<le> 60000\<close> milliseconds.
\<close>

definition eligible ::
  "(string \<Rightarrow> string \<Rightarrow> int option) \<Rightarrow> int \<Rightarrow> string set \<Rightarrow> task \<Rightarrow> bool"
where
  "eligible dueMs now handled t =
    (case (due_date t, due_time t) of
       (Some d, Some tm) \<Rightarrow>
          d \<noteq> [] \<and> tm \<noteq> [] \<and> \<not> completed t \<and> \<not> reminder_shown t \<and> task_id t \<notin> handled \<and>
          (case dueMs d tm of None \<Rightarrow> False | Some T \<Rightarrow> T \<le> now \<and> now - T \<le> 60000)
     | _ \<Rightarrow> False)"

text \<open>The two calls made for a selected task, in the order of lines 50 and 51.\<close>

definition deliver :: "task \<Rightarrow> effect list" where
  "deliver t = [Notify t, UpdateTask (task_id t) (noUpdates\<lparr> u_reminder_shown := Some True \<rparr>)]"

text \<open>
  A trace that consists of such pairs only: each \<open>Notify\<close> is followed at once by the
  \<open>UpdateTask\<close> of the same task, and no \<open>UpdateTask\<close> stands elsewhere.
\<close>

fun wellPaired :: "effect list \<Rightarrow> bool" where
  "wellPaired [] = True"
| "wellPaired (Notify t # UpdateTask k u # es) = (task_id t = k \<and> wellPaired es)"
| "wellPaired es = False"

text \<open>
  Conditions on what the hook is given. \<open>shownIn k\<close>: in a scanned list, every task with id
  \<open>k\<close> has \<open>reminder_shown\<close> set. \<open>notCompletedIn k\<close>: the second effect sees no completed
  task with id \<open>k\<close>.
\<close>

fun shownIn :: "string \<Rightarrow> hook_event \<Rightarrow> bool" where
  "shownIn k (Check L now) = (\<forall>t \<in> set L. task_id t = k \<longrightarrow> reminder_shown t)"
| "shownIn k (ResetCompleted L) = True"

fun notCompletedIn :: "string \<Rightarrow> hook_event \<Rightarrow> bool" where
  "notCompletedIn k (Check L now) = True"
| "notCompletedIn k (ResetCompleted L) = (\<forall>t \<in> set L. task_id t = k \<longrightarrow> \<not> completed t)"

text \<open>
  Newest first: both creation times are valid and the first is not before the second.
\<close>

definition newerEq :: "(string \<Rightarrow> int option) \<Rightarrow> task \<Rightarrow> task \<Rightarrow> bool" where
  "newerEq dateMs x y =
     (case (dateMs (created_at x), dateMs (created_at y)) of
        (Some a, Some b) \<Rightarrow> b \<le> a
      | _ \<Rightarrow> False)"

section \<open>Example data\<close>

text \<open>
  Two tasks due on 2024-01-01 at 09:00, which is 1704099600000 ms on the UTC host, and
  variants of the first one.
\<close>

definition exampleTask :: task where
  "exampleTask =
    \<lparr> task_id = ''task_1'', title = ''Call the bank'', description = ''[HIGH] before noon'',
      due_date = Some ''2024-01-01'', due_time = Some ''09:00'', completed = False,
      reminder_shown = False, created_at = ''2023-12-30T08:15:00.000Z'',
      updated_at = ''2023-12-30T08:15:00.000Z'' \<rparr>"

definition otherTask :: task where
  "otherTask =
    \<lparr> task_id = ''task_2'', title = ''Water the plants'', description = [],
      due_date = Some ''2024-01-01'', due_time = Some ''09:00'', completed = False,
      reminder_shown = False, created_at = ''2023-12-31T10:00:00.000Z'',
      updated_at = ''2023-12-31T10:00:00.000Z'' \<rparr>"

definition doneTask :: task where
  "doneTask = exampleTask\<lparr> completed := True \<rparr>"

definition shownTask :: task where
  "shownTask = exampleTask\<lparr> reminder_shown := True \<rparr>"

text \<open>A scanner whose last evaluation was at 09:00:04.500.\<close>

definition throttledScanner :: scanner where
  "throttledScanner = \<lparr> checkedTasks = {}, lastCheckTime = 1704099604500 \<rparr>"

text \<open>
  The scanner after the first example task fired at 09:00:05 and was then seen completed by
  the evaluation of 09:00:08.
\<close>

definition firedScanner :: scanner where
  "firedScanner =
     fst (runHook utcDueTimeMs
            [Check [exampleTask] 1704099605000, ResetCompleted [exampleTask],
             Check [doneTask] 1704099608000] initialScanner)"

text \<open>A call during which the database cannot be opened.\<close>

definition storeDown :: io where
  "storeDown = \<lparr> opens = False, reads = True, writes = True \<rparr>"

text \<open>
  The application holding the first example task, and what \<open>updateTask\<close> of the hook makes
  of it: the write of \<open>reminder_shown\<close> at 09:00:05 while the store is down, then the user
  completing the task at 09:00:08 and marking it incomplete again at 09:00:12.
\<close>

definition appStart :: app where
  "appStart = \<lparr> db = [exampleTask], tasks = [exampleTask], error = None \<rparr>"

definition afterFailedWrite :: app where
  "afterFailedWrite =
     fst (hook_updateTask storeDown ''2024-01-01T09:00:05.000Z'' ''task_1''
            (noUpdates\<lparr> u_reminder_shown := Some True \<rparr>) appStart)"

definition afterComplete :: app where
  "afterComplete =
     fst (hook_updateTask allOk ''2024-01-01T09:00:08.000Z'' ''task_1''
            (noUpdates\<lparr> u_completed := Some True \<rparr>) afterFailedWrite)"

definition afterUncomplete :: app where
  "afterUncomplete =
     fst (hook_updateTask allOk ''2024-01-01T09:00:12.000Z'' ''task_1''
            (noUpdates\<lparr> u_completed := Some False \<rparr>) afterComplete)"

text \<open>Stores, an update that moves the due time and names another id, and a new task.\<close>

definition exampleStore :: store where
  "exampleStore = [exampleTask, otherTask]"

definition shownStore :: store where
  "shownStore = [shownTask, otherTask]"

definition dueChange :: task_updates where
  "dueChange = noUpdates\<lparr> u_id := Some ''task_7'', u_due_date := Some (Some ''2024-02-01''),
                            u_due_time := Some (Some ''10:30'') \<rparr>"

definition milkData :: task_data where
  "milkData = \<lparr> td_title = ''Buy milk'', td_description = None,
                 td_due_date = Some ''2024-01-02'', td_due_time = Some [] \<rparr>"

definition milkTask :: task where
  "milkTask =
     \<lparr> task_id = ''task_1704067200000_k3x9q2m1a'', title = ''Buy milk'',
       description = [], due_date = Some ''2024-01-02'', due_time = None,
       completed = False, reminder_shown = False,
       created_at = ''2024-01-01T00:00:00.000Z'',
       updated_at = ''2024-01-01T00:00:00.000Z'' \<rparr>"

section \<open>Facts about the scan\<close>

lemmas host_eval = utcDueTimeMs_def parseDigits_def digitValue_def utcDate_def daysFromCivil_def

lemmas scan_eval = checkReminders_def visitTask_def truthy_def initialScanner_def
  exampleTask_def otherTask_def doneTask_def shownTask_def

text \<open>The callback selects a task exactly when the specification's predicate holds.\<close>

lemma visitTask_eq:
  "visitTask dueMs now c t =
     (if eligible dueMs now c t then (insert (task_id t) c, deliver t) else (c, []))"
  by (auto simp: visitTask_def eligible_def deliver_def truthy_def Let_def split: option.splits)

lemma visitTask_fst:
  "fst (visitTask dueMs now c t) = (if eligible dueMs now c t then insert (task_id t) c else c)"
  by (simp add: visitTask_eq)

lemma visitTask_snd:
  "snd (visitTask dueMs now c t) = (if eligible dueMs now c t then deliver t else [])"
  by (simp add: visitTask_eq)

lemma forEach_Cons_fst:
  "fst (forEachTask f (t # rest) c) = fst (forEachTask f rest (fst (f c t)))"
  by (simp split: prod.splits)

lemma forEach_Cons_snd:
  "snd (forEachTask f (t # rest) c) = snd (f c t) @ snd (forEachTask f rest (fst (f c t)))"
  by (simp split: prod.splits)

text \<open>The handled set only grows during a scan.\<close>

lemma forEach_checked_lower: "c \<subseteq> fst (forEachTask (visitTask dueMs now) L c)"
proof (induction L arbitrary: c)
  case Nil
  then show ?case by simp
next
  case (Cons a L)
  have "c \<subseteq> fst (visitTask dueMs now c a)"
    by (auto simp: visitTask_fst)
  also have "\<dots> \<subseteq> fst (forEachTask (visitTask dueMs now) L (fst (visitTask dueMs now c a)))"
    by (rule Cons.IH)
  finally show ?case by (simp only: forEach_Cons_fst)
qed

lemma eligible_mono: "eligible dueMs now c' t \<Longrightarrow> c \<subseteq> c' \<Longrightarrow> eligible dueMs now c t"
  by (auto simp: eligible_def split: option.splits)

text \<open>Every call of a scan belongs to a task of the list that was eligible when the scan began.\<close>

lemma forEach_sound:
  "e \<in> set (snd (forEachTask (visitTask dueMs now) L c)) \<Longrightarrow>
     \<exists>t \<in> set L. eligible dueMs now c t \<and> e \<in> set (deliver t)"
proof (induction L arbitrary: c)
  case Nil
  then show ?case by simp
next
  case (Cons a L)
  let ?c1 = "fst (visitTask dueMs now c a)"
  from Cons.prems have "e \<in> set (snd (visitTask dueMs now c a)) \<or>
      e \<in> set (snd (forEachTask (visitTask dueMs now) L ?c1))"
    by (simp only: forEach_Cons_snd set_append Un_iff)
  then show ?case
  proof
    assume "e \<in> set (snd (visitTask dueMs now c a))"
    then have "eligible dueMs now c a \<and> e \<in> set (deliver a)"
      by (simp add: visitTask_snd split: if_splits)
    then show ?thesis by auto
  next
    assume "e \<in> set (snd (forEachTask (visitTask dueMs now) L ?c1))"
    from Cons.IH[OF this] obtain t
      where t: "t \<in> set L" "eligible dueMs now ?c1 t" "e \<in> set (deliver t)"
      by blast
    have "c \<subseteq> ?c1" by (auto simp: visitTask_fst)
    with t(2) have "eligible dueMs now c t" by (rule eligible_mono)
    with t show ?thesis by auto
  qed
qed

text \<open>With pairwise distinct ids, every eligible task of the list is delivered.\<close>

lemma forEach_complete:
  "distinct (map task_id L) \<Longrightarrow> t \<in> set L \<Longrightarrow> eligible dueMs now c t \<Longrightarrow>
     set (deliver t) \<subseteq> set (snd (forEachTask (visitTask dueMs now) L c))"
proof (induction L arbitrary: c)
  case Nil
  then show ?case by simp
next
  case (Cons a L)
  let ?c1 = "fst (visitTask dueMs now c a)"
  show ?case
  proof (cases "t = a")
    case True
    with Cons.prems(3) have "snd (visitTask dueMs now c a) = deliver t"
      by (simp add: visitTask_snd)
    then show ?thesis by (simp only: forEach_Cons_snd set_append) simp
  next
    case False
    with Cons.prems have tL: "t \<in> set L" and d: "distinct (map task_id L)"
      and na: "task_id a \<notin> task_id ` set L" by auto
    from tL have "task_id t \<in> task_id ` set L" by (rule imageI)
    with na have ne: "task_id t \<noteq> task_id a" by metis
    from Cons.prems(3) ne have "eligible dueMs now ?c1 t"
      by (auto simp: eligible_def visitTask_fst split: option.splits)
    from Cons.IH[OF d tL this] show ?thesis
      by (simp only: forEach_Cons_snd set_append) blast
  qed
qed

lemma deliver_id: "e \<in> set (deliver t) \<Longrightarrow> effect_task_id e = task_id t"
  by (auto simp: deliver_def)

lemma checkReminders_snd:
  "snd (checkReminders dueMs L now s) =
     (if now - lastCheckTime s < 1000 then []
      else snd (forEachTask (visitTask dueMs now) L (checkedTasks s)))"
  by (simp add: checkReminders_def split: prod.splits)

lemma checkReminders_checked:
  "checkedTasks (fst (checkReminders dueMs L now s)) =
     (if now - lastCheckTime s < 1000 then checkedTasks s
      else fst (forEachTask (visitTask dueMs now) L (checkedTasks s)))"
  by (simp add: checkReminders_def split: prod.splits)

lemma checkReminders_last:
  "lastCheckTime (fst (checkReminders dueMs L now s)) =
     (if now - lastCheckTime s < 1000 then lastCheckTime s else now)"
  by (simp add: checkReminders_def split: prod.splits)

lemma checkReminders_sound:
  assumes "e \<in> set (snd (checkReminders dueMs L now s))"
  shows "1000 \<le> now - lastCheckTime s \<and>
         (\<exists>t \<in> set L. eligible dueMs now (checkedTasks s) t \<and> e \<in> set (deliver t))"
proof -
  from assms have nt: "\<not> now - lastCheckTime s < 1000"
    by (auto simp: checkReminders_snd split: if_splits)
  with assms have "e \<in> set (snd (forEachTask (visitTask dueMs now) L (checkedTasks s)))"
    by (simp add: checkReminders_snd)
  from forEach_sound[OF this] nt show ?thesis by auto
qed

lemma checkReminders_keeps:
  "checkedTasks s \<subseteq> checkedTasks (fst (checkReminders dueMs L now s))"
  using forEach_checked_lower[of "checkedTasks s" dueMs now L]
  by (simp add: checkReminders_checked)

lemma fold_remove: "fold (\<lambda>k c. c - {k}) ks c = c - set ks"
  by (induction ks arbitrary: c) auto

lemma resetCompleted_checked:
  "checkedTasks (resetCompleted L s) = checkedTasks s - task_id ` {t \<in> set L. completed t}"
  by (simp add: resetCompleted_def fold_remove)

lemma resetCompleted_last: "lastCheckTime (resetCompleted L s) = lastCheckTime s"
  by (simp add: resetCompleted_def)

lemma runHook_Cons_snd:
  "snd (runHook dueMs (ev # evs) s) =
     snd (hookStep dueMs ev s) @ snd (runHook dueMs evs (fst (hookStep dueMs ev s)))"
  by (simp split: prod.splits)

lemma runHook_Cons_fst:
  "fst (runHook dueMs (ev # evs) s) = fst (runHook dueMs evs (fst (hookStep dueMs ev s)))"
  by (simp split: prod.splits)

lemma hookStep_sound:
  assumes "e \<in> set (snd (hookStep dueMs ev s))"
  shows "\<exists>L now t. ev = Check L now \<and> t \<in> set L \<and> eligible dueMs now (checkedTasks s) t \<and>
                     e \<in> set (deliver t)"
proof (cases ev)
  case (Check L now)
  with assms have "e \<in> set (snd (checkReminders dueMs L now s))" by simp
  from checkReminders_sound[OF this] Check show ?thesis by blast
next
  case (ResetCompleted L)
  with assms show ?thesis by simp
qed

text \<open>The trace of the hook is a sequence of notification and update pairs.\<close>

lemma wellPaired_append: "wellPaired xs \<Longrightarrow> wellPaired ys \<Longrightarrow> wellPaired (xs @ ys)"
  by (induction xs rule: wellPaired.induct) simp_all

lemma wellPaired_deliver: "wellPaired (deliver t)"
  by (simp add: deliver_def)

lemma wellPaired_forEach: "wellPaired (snd (forEachTask (visitTask dueMs now) L c))"
proof (induction L arbitrary: c)
  case Nil
  then show ?case by simp
next
  case (Cons a L)
  have "wellPaired (snd (visitTask dueMs now c a))"
    by (simp add: visitTask_snd wellPaired_deliver)
  with Cons.IH show ?case by (simp only: forEach_Cons_snd wellPaired_append)
qed

lemma wellPaired_hookStep: "wellPaired (snd (hookStep dueMs ev s))"
  by (cases ev) (simp_all add: checkReminders_snd wellPaired_forEach)

lemma wellPaired_runHook: "wellPaired (snd (runHook dueMs evs s))"
proof (induction evs arbitrary: s)
  case Nil
  then show ?case by simp
next
  case (Cons ev evs)
  show ?case
    by (simp only: runHook_Cons_snd wellPaired_append wellPaired_hookStep Cons.IH)
qed

lemma wellPaired_nth:
  "wellPaired es \<Longrightarrow> i < length es \<Longrightarrow> es ! i = UpdateTask k u \<Longrightarrow>
     0 < i \<and> (\<exists>t. es ! (i - 1) = Notify t \<and> task_id t = k)"
proof (induction es arbitrary: i rule: wellPaired.induct)
  case 1
  then show ?case by simp
next
  case (2 t k' u' es)
  show ?case
  proof (cases i)
    case 0
    with "2.prems" show ?thesis by simp
  next
    case (Suc j)
    show ?thesis
    proof (cases j)
      case 0
      with Suc "2.prems" show ?thesis by simp
    next
      case (Suc m)
      with \<open>i = Suc j\<close> "2.prems"
      have "wellPaired es" "m < length es" "es ! m = UpdateTask k u"
        by simp_all
      from "2.IH"[OF this] Suc \<open>i = Suc j\<close> show ?thesis by (cases m) simp_all
    qed
  qed
qed simp_all

text \<open>The first evaluation of the examples: five seconds after the due time.\<close>

lemma example_first_tick:
  "checkReminders utcDueTimeMs [exampleTask] 1704099605000 initialScanner =
     (\<lparr> checkedTasks = {''task_1''}, lastCheckTime = 1704099605000 \<rparr>,
      [Notify exampleTask, UpdateTask ''task_1'' (noUpdates\<lparr> u_reminder_shown := Some True \<rparr>)])"
  by (simp add: scan_eval host_eval)

lemma example_run:
  "snd (runHook utcDueTimeMs [Check [exampleTask] 1704099605000] initialScanner) =
     [Notify exampleTask, UpdateTask ''task_1'' (noUpdates\<lparr> u_reminder_shown := Some True \<rparr>)]"
  by (simp add: example_first_tick)

text \<open>A task that is selected is in the handled set afterwards, and stays there.\<close>

lemma forEach_marks:
  "e \<in> set (snd (forEachTask (visitTask dueMs now) L c)) \<Longrightarrow>
     effect_task_id e \<in> fst (forEachTask (visitTask dueMs now) L c)"
proof (induction L arbitrary: c)
  case Nil
  then show ?case by simp
next
  case (Cons a L)
  let ?c1 = "fst (visitTask dueMs now c a)"
  from Cons.prems have "e \<in> set (snd (visitTask dueMs now c a)) \<or>
      e \<in> set (snd (forEachTask (visitTask dueMs now) L ?c1))"
    by (simp only: forEach_Cons_snd set_append Un_iff)
  then show ?case
  proof
    assume "e \<in> set (snd (visitTask dueMs now c a))"
    then have "effect_task_id e \<in> ?c1"
      by (auto simp: visitTask_fst visitTask_snd deliver_def split: if_splits)
    with forEach_checked_lower[of ?c1 dueMs now L] show ?thesis
      by (simp only: forEach_Cons_fst) blast
  next
    assume "e \<in> set (snd (forEachTask (visitTask dueMs now) L ?c1))"
    from Cons.IH[OF this] show ?thesis by (simp only: forEach_Cons_fst)
  qed
qed

lemma checkReminders_marks:
  assumes "e \<in> set (snd (checkReminders dueMs L now s))"
  shows "effect_task_id e \<in> checkedTasks (fst (checkReminders dueMs L now s))"
proof -
  from assms have nt: "\<not> now - lastCheckTime s < 1000"
    by (auto simp: checkReminders_snd split: if_splits)
  with assms have "e \<in> set (snd (forEachTask (visitTask dueMs now) L (checkedTasks s)))"
    by (simp add: checkReminders_snd)
  from forEach_marks[OF this] nt show ?thesis by (simp add: checkReminders_checked)
qed

lemma hookStep_handled:
  assumes "k \<in> checkedTasks s" and "notCompletedIn k ev"
  shows "k \<in> checkedTasks (fst (hookStep dueMs ev s)) \<and>
         k \<notin> effect_task_id ` set (snd (hookStep dueMs ev s))"
proof (cases ev)
  case (Check L now)
  have "k \<notin> effect_task_id ` set (snd (checkReminders dueMs L now s))"
  proof
    assume "k \<in> effect_task_id ` set (snd (checkReminders dueMs L now s))"
    then obtain e where e: "e \<in> set (snd (checkReminders dueMs L now s))"
      "effect_task_id e = k" by auto
    from checkReminders_sound[OF e(1)] obtain t where
      t: "eligible dueMs now (checkedTasks s) t" "e \<in> set (deliver t)" by blast
    from deliver_id[OF t(2)] e(2) have "task_id t = k" by simp
    with t(1) assms(1) show False by (auto simp: eligible_def split: option.splits)
  qed
  with checkReminders_keeps[of s dueMs L now] assms(1) Check show ?thesis by auto
next
  case (ResetCompleted L)
  with assms show ?thesis by (auto simp: resetCompleted_checked)
qed

lemma runHook_handled:
  "k \<in> checkedTasks s \<Longrightarrow> \<forall>ev \<in> set evs. notCompletedIn k ev \<Longrightarrow>
     k \<in> checkedTasks (fst (runHook dueMs evs s)) \<and>
     k \<notin> effect_task_id ` set (snd (runHook dueMs evs s))"
proof (induction evs arbitrary: s)
  case Nil
  then show ?case by simp
next
  case (Cons ev evs)
  from Cons.prems have "notCompletedIn k ev" by simp
  from hookStep_handled[OF Cons.prems(1) this, of dueMs]
  have a: "k \<in> checkedTasks (fst (hookStep dueMs ev s))"
    and b: "k \<notin> effect_task_id ` set (snd (hookStep dueMs ev s))" by simp_all
  from Cons.prems have "\<forall>ev \<in> set evs. notCompletedIn k ev" by simp
  from Cons.IH[OF a this] b show ?case
    by (simp only: runHook_Cons_snd runHook_Cons_fst set_append image_Un Un_iff) blast
qed

text \<open>An id enters the handled set only with a delivery for it.\<close>

lemma forEach_checked_upper:
  "fst (forEachTask (visitTask dueMs now) L c) \<subseteq>
     c \<union> effect_task_id ` set (snd (forEachTask (visitTask dueMs now) L c))"
proof (induction L arbitrary: c)
  case Nil
  then show ?case by simp
next
  case (Cons a L)
  let ?c1 = "fst (visitTask dueMs now c a)"
  have "?c1 \<subseteq> c \<union> effect_task_id ` set (snd (visitTask dueMs now c a))"
    by (cases "eligible dueMs now c a") (simp_all add: visitTask_fst visitTask_snd deliver_def)
  with Cons.IH[of ?c1] show ?case
    by (simp only: forEach_Cons_fst forEach_Cons_snd set_append image_Un) blast
qed

lemma hookStep_unmarked:
  assumes "k \<notin> checkedTasks s" and "k \<notin> effect_task_id ` set (snd (hookStep dueMs ev s))"
  shows "k \<notin> checkedTasks (fst (hookStep dueMs ev s))"
proof (cases ev)
  case (Check L now)
  show ?thesis
  proof (cases "now - lastCheckTime s < 1000")
    case True
    with Check assms(1) show ?thesis by (simp add: checkReminders_def)
  next
    case False
    with Check assms forEach_checked_upper[of dueMs now L "checkedTasks s"]
    show ?thesis by (auto simp: checkReminders_checked checkReminders_snd)
  qed
next
  case (ResetCompleted L)
  with assms(1) show ?thesis by (simp add: resetCompleted_checked)
qed

lemma runHook_unmarked:
  "k \<notin> checkedTasks s \<Longrightarrow> k \<notin> effect_task_id ` set (snd (runHook dueMs evs s)) \<Longrightarrow>
     k \<notin> checkedTasks (fst (runHook dueMs evs s))"
proof (induction evs arbitrary: s)
  case Nil
  then show ?case by simp
next
  case (Cons ev evs)
  from Cons.prems(2) have a: "k \<notin> effect_task_id ` set (snd (hookStep dueMs ev s))"
    and b: "k \<notin> effect_task_id ` set (snd (runHook dueMs evs (fst (hookStep dueMs ev s))))"
    by (simp_all only: runHook_Cons_snd set_append image_Un Un_iff de_Morgan_disj simp_thms)
  from hookStep_unmarked[OF Cons.prems(1) a] have "k \<notin> checkedTasks (fst (hookStep dueMs ev s))" .
  from Cons.IH[OF this b] show ?case by (simp only: runHook_Cons_fst simp_thms)
qed

section \<open>Facts about the store\<close>

lemma find_insort_hit:
  "P t \<Longrightarrow> \<forall>x \<in> set xs. \<not> P x \<Longrightarrow> find P (insort_key f t xs) = Some t"
  by (induction xs) auto

lemma find_insort_miss: "\<not> P t \<Longrightarrow> find P (insort_key f t xs) = find P xs"
  by (induction xs) auto

lemma find_filter_keep: "(\<And>x. P x \<Longrightarrow> Q x) \<Longrightarrow> find P (filter Q xs) = find P xs"
  by (induction xs) auto

lemma store_get_id: "store_get k st = Some e \<Longrightarrow> task_id e = k"
  by (auto simp: store_get_def find_Some_iff)

lemma store_get_put_same: "store_get (task_id t) (store_put t st) = Some t"
  unfolding store_get_def store_put_def by (rule find_insort_hit) auto

lemma store_get_put_other: "k \<noteq> task_id t \<Longrightarrow> store_get k (store_put t st) = store_get k st"
proof -
  assume ne: "k \<noteq> task_id t"
  then have "find (\<lambda>x. task_id x = k) (insort_key task_id t (filter (\<lambda>x. task_id x \<noteq> task_id t) st))
      = find (\<lambda>x. task_id x = k) (filter (\<lambda>x. task_id x \<noteq> task_id t) st)"
    by (intro find_insort_miss) simp
  also from ne have "\<dots> = find (\<lambda>x. task_id x = k) st"
    by (intro find_filter_keep) simp
  finally show ?thesis by (simp add: store_get_def store_put_def)
qed

lemma store_delete_absent: "store_get k st = None \<Longrightarrow> store_delete k st = st"
  by (auto simp: store_get_def store_delete_def find_None_iff filter_id_conv)

lemma set_insertSorted: "set (insertSorted cmp x ys) = insert x (set ys)"
  by (induction ys) auto

lemma length_insertSorted: "length (insertSorted cmp x ys) = Suc (length ys)"
  by (induction ys) auto

lemma set_jsSort: "set (jsSort cmp xs) = set xs"
  by (induction xs) (auto simp: jsSort_def set_insertSorted)

lemma length_jsSort: "length (jsSort cmp xs) = length xs"
  by (induction xs) (auto simp: jsSort_def length_insertSorted)

lemma compareCreated_valid:
  "dateMs (created_at x) \<noteq> None \<Longrightarrow> dateMs (created_at y) \<noteq> None \<Longrightarrow>
     (compareCreated dateMs x y \<le> 0) = newerEq dateMs x y"
  by (auto simp: compareCreated_def newerEq_def)

lemma newerEq_total:
  "dateMs (created_at x) \<noteq> None \<Longrightarrow> dateMs (created_at y) \<noteq> None \<Longrightarrow>
     \<not> newerEq dateMs x y \<Longrightarrow> newerEq dateMs y x"
  by (auto simp: newerEq_def)

lemma newerEq_trans: "newerEq dateMs x y \<Longrightarrow> newerEq dateMs y z \<Longrightarrow> newerEq dateMs x z"
  by (auto simp: newerEq_def split: option.splits)

lemma sorted_insertSorted:
  assumes "dateMs (created_at x) \<noteq> None" and "\<forall>y \<in> set ys. dateMs (created_at y) \<noteq> None"
      and "sorted_wrt (newerEq dateMs) ys"
  shows "sorted_wrt (newerEq dateMs) (insertSorted (compareCreated dateMs) x ys)"
  using assms
proof (induction ys)
  case Nil
  then show ?case by simp
next
  case (Cons y ys)
  show ?case
  proof (cases "newerEq dateMs x y")
    case True
    with Cons.prems have "\<forall>z \<in> set ys. newerEq dateMs x z"
      by (auto intro: newerEq_trans)
    with True Cons.prems show ?thesis by (simp add: compareCreated_valid)
  next
    case False
    with Cons.prems have yx: "newerEq dateMs y x" by (simp add: newerEq_total)
    from Cons.prems have "sorted_wrt (newerEq dateMs) (insertSorted (compareCreated dateMs) x ys)"
      by (intro Cons.IH) simp_all
    with False yx Cons.prems show ?thesis
      by (auto simp: compareCreated_valid set_insertSorted)
  qed
qed

lemma sorted_jsSort:
  "\<forall>y \<in> set xs. dateMs (created_at y) \<noteq> None \<Longrightarrow>
     sorted_wrt (newerEq dateMs) (jsSort (compareCreated dateMs) xs)"
proof (induction xs)
  case Nil
  then show ?case by (simp add: jsSort_def)
next
  case (Cons x xs)
  then have "sorted_wrt (newerEq dateMs) (jsSort (compareCreated dateMs) xs)" by simp
  with Cons.prems have "sorted_wrt (newerEq dateMs)
      (insertSorted (compareCreated dateMs) x (jsSort (compareCreated dateMs) xs))"
    by (intro sorted_insertSorted) (simp_all add: set_jsSort)
  then show ?case by (simp add: jsSort_def)
qed

text \<open>
  On valid creation times the sort is the stable sort by descending time, whichever
  algorithm the engine runs.
\<close>

lemma insertSorted_insort:
  "dateMs (created_at x) \<noteq> None \<Longrightarrow> \<forall>y \<in> set ys. dateMs (created_at y) \<noteq> None \<Longrightarrow>
     insertSorted (compareCreated dateMs) x ys =
       insort_key (\<lambda>t. - the (dateMs (created_at t))) x ys"
  by (induction ys) (auto simp: compareCreated_def)

lemma jsSort_stable_sort:
  "\<forall>y \<in> set xs. dateMs (created_at y) \<noteq> None \<Longrightarrow>
     jsSort (compareCreated dateMs) xs = sort_key (\<lambda>t. - the (dateMs (created_at t))) xs"
proof (induction xs)
  case Nil
  then show ?case by (simp add: jsSort_def)
next
  case (Cons x xs)
  then have ih: "jsSort (compareCreated dateMs) xs =
      sort_key (\<lambda>t. - the (dateMs (created_at t))) xs" by simp
  from Cons.prems have "\<forall>y \<in> set (jsSort (compareCreated dateMs) xs).
      dateMs (created_at y) \<noteq> None" by (simp add: set_jsSort)
  with Cons.prems have "insertSorted (compareCreated dateMs) x (jsSort (compareCreated dateMs) xs)
      = insort_key (\<lambda>t. - the (dateMs (created_at t))) x (jsSort (compareCreated dateMs) xs)"
    by (intro insertSorted_insort) simp_all
  with ih show ?case by (simp add: jsSort_def)
qed

text \<open>The examples of the store and of the application, evaluated.\<close>

lemmas app_eval = hook_updateTask_def updateTask_def store_get_def store_put_def spread_def
  storeDown_def allOk_def appStart_def afterFailedWrite_def afterComplete_def
  afterUncomplete_def noUpdates_def Let_def

lemma after_failed_write: "afterFailedWrite = appStart\<lparr> error := Some OpenError \<rparr>"
  by (simp add: app_eval)

lemma after_complete_tasks:
  "tasks afterComplete = [doneTask\<lparr> updated_at := ''2024-01-01T09:00:08.000Z'' \<rparr>]"
  by (simp add: app_eval exampleTask_def doneTask_def)

lemma after_uncomplete_tasks:
  "tasks afterUncomplete = [exampleTask\<lparr> updated_at := ''2024-01-01T09:00:12.000Z'' \<rparr>]"
  by (simp add: app_eval exampleTask_def doneTask_def)

lemmas iso_eval = isoMs_def parseDigits_def digitValue_def daysFromCivil_def

lemma example_addTask:
  "addTask allOk ''1704067200000'' ''k3x9q2m1a'' ''2024-01-01T00:00:00.000Z'' milkData
       exampleStore = Inr (milkTask, [exampleTask, milkTask, otherTask])"
  by (simp add: addTask_def allOk_def milkData_def exampleStore_def orEmpty_def orNull_def
        store_get_def exampleTask_def otherTask_def milkTask_def Let_def)

lemma fired_scanner:
  "firedScanner = \<lparr> checkedTasks = {''task_1''}, lastCheckTime = 1704099608000 \<rparr>"
  by (simp add: firedScanner_def resetCompleted_def scan_eval host_eval)

lemma example_mid:
  "runHook utcDueTimeMs [Check [exampleTask] 1704099608400, ResetCompleted [exampleTask]]
     (resetCompleted [doneTask] firedScanner) =
     (\<lparr> checkedTasks = {}, lastCheckTime = 1704099608000 \<rparr>, [])"
  by (simp add: fired_scanner resetCompleted_def scan_eval)

text \<open>
  The scenarios of the specification on the UTC host: thirty seconds before the due time
  nothing is selected, a task whose reminder was shown is not selected, five minutes late
  the reminder is dropped; the window is closed at both ends.
\<close>

lemma scenario_before_due:
  "checkReminders utcDueTimeMs [exampleTask] 1704099570000 initialScanner =
     (\<lparr> checkedTasks = {}, lastCheckTime = 1704099570000 \<rparr>, [])"
  by (simp add: scan_eval host_eval)

lemma scenario_already_shown:
  "snd (checkReminders utcDueTimeMs [shownTask] 1704099610000
          \<lparr> checkedTasks = {}, lastCheckTime = 1704099605000 \<rparr>) = []"
  by (simp add: scan_eval host_eval)

lemma scenario_lateness_drop:
  "checkReminders utcDueTimeMs [exampleTask] 1704099900000 initialScanner =
     (\<lparr> checkedTasks = {}, lastCheckTime = 1704099900000 \<rparr>, [])"
  by (simp add: scan_eval host_eval)

lemma scenario_window_edges:
  "snd (checkReminders utcDueTimeMs [exampleTask] 1704099600000 initialScanner) \<noteq> [] \<and>
   snd (checkReminders utcDueTimeMs [exampleTask] 1704099660000 initialScanner) \<noteq> [] \<and>
   snd (checkReminders utcDueTimeMs [exampleTask] 1704099660001 initialScanner) = [] \<and>
   snd (checkReminders utcDueTimeMs [exampleTask] 1704099599999 initialScanner) = []"
  by (simp add: scan_eval host_eval)


section \<open>The reminder scanner\<close>

text \<open>
  C1, as stated, fails on an invocation that the throttle of line 20 stops. At 09:00:05 the
  example task meets every condition the claim lists (both due fields present, not
  completed, no reminder shown, id not handled, due 5 seconds ago), and the invocation,
  coming 500 ms after the last evaluation, does not select it.
\<close>

theorem throttled_tick_skips_eligible_task:
  "due_date exampleTask = Some ''2024-01-01'' \<and> due_time exampleTask = Some ''09:00'' \<and>
   \<not> completed exampleTask \<and> \<not> reminder_shown exampleTask \<and>
   task_id exampleTask \<notin> checkedTasks throttledScanner \<and>
   utcDueTimeMs ''2024-01-01'' ''09:00'' = Some 1704099600000 \<and>
   (1704099600000 :: int) \<le> 1704099605000 \<and> (1704099605000 :: int) - 1704099600000 \<le> 60000 \<and>
   Notify exampleTask \<notin>
     set (snd (checkReminders utcDueTimeMs [exampleTask] 1704099605000 throttledScanner))"
  by (simp add: scan_eval host_eval throttledScanner_def)

text \<open>
  C1 (amended): on every invocation of the scanner with task list \<open>L\<close> and time \<open>now\<close>, a task
  is selected only if it is in \<open>L\<close>, the invocation passes the throttle (at least 1000 ms
  since the last evaluation), both due fields are present, the task is not completed, no
  reminder was shown, its id is not in the handled set, and its due timestamp \<open>T\<close> has
  \<open>T \<le> now\<close> and \<open>now - T \<le> 60000\<close>; so a task is never selected before it is due nor more
  than 60 seconds after. Conversely, on an invocation that passes the throttle, with the ids
  of \<open>L\<close> pairwise distinct, every task of \<open>L\<close> that meets these conditions is selected: it is
  notified and the update \<open>reminder_shown = true\<close> is issued for it.
\<close>

theorem selection_characterised:
  "(Notify t \<in> set (snd (checkReminders dueMs L now s)) \<longrightarrow>
      t \<in> set L \<and> eligible dueMs now (checkedTasks s) t \<and> 1000 \<le> now - lastCheckTime s) \<and>
   (1000 \<le> now - lastCheckTime s \<and> distinct (map task_id L) \<and> t \<in> set L \<and>
    eligible dueMs now (checkedTasks s) t \<longrightarrow>
      Notify t \<in> set (snd (checkReminders dueMs L now s)) \<and>
      UpdateTask (task_id t) (noUpdates\<lparr> u_reminder_shown := Some True \<rparr>)
        \<in> set (snd (checkReminders dueMs L now s)))"
proof (intro conjI impI)
  assume n: "Notify t \<in> set (snd (checkReminders dueMs L now s))"
  from checkReminders_sound[OF n] obtain t' where t': "1000 \<le> now - lastCheckTime s"
    "t' \<in> set L" "eligible dueMs now (checkedTasks s) t'" "Notify t \<in> set (deliver t')"
    by blast
  from t'(4) have "t' = t" by (simp add: deliver_def)
  with t' show "t \<in> set L" "eligible dueMs now (checkedTasks s) t"
    "1000 \<le> now - lastCheckTime s"
    by simp_all
next
  assume h: "1000 \<le> now - lastCheckTime s \<and> distinct (map task_id L) \<and> t \<in> set L \<and>
    eligible dueMs now (checkedTasks s) t"
  then have out: "snd (checkReminders dueMs L now s) =
      snd (forEachTask (visitTask dueMs now) L (checkedTasks s))"
    by (simp add: checkReminders_snd)
  from h have "set (deliver t) \<subseteq> set (snd (forEachTask (visitTask dueMs now) L (checkedTasks s)))"
    by (intro forEach_complete) simp_all
  with out have sub: "set (deliver t) \<subseteq> set (snd (checkReminders dueMs L now s))"
    by simp
  from sub show "Notify t \<in> set (snd (checkReminders dueMs L now s))"
    by (auto simp: deliver_def)
  from sub show "UpdateTask (task_id t) (noUpdates\<lparr> u_reminder_shown := Some True \<rparr>)
        \<in> set (snd (checkReminders dueMs L now s))"
    by (auto simp: deliver_def)
qed

theorem selection_characterised_witness:
  "1000 \<le> 1704099605000 - lastCheckTime initialScanner \<and>
   distinct (map task_id [otherTask, exampleTask]) \<and>
   exampleTask \<in> set [otherTask, exampleTask] \<and>
   eligible utcDueTimeMs 1704099605000 (checkedTasks initialScanner) exampleTask \<and>
   Notify exampleTask \<in>
     set (snd (checkReminders utcDueTimeMs [otherTask, exampleTask] 1704099605000
                 initialScanner)) \<and>
   UpdateTask (task_id exampleTask) (noUpdates\<lparr> u_reminder_shown := Some True \<rparr>) \<in>
     set (snd (checkReminders utcDueTimeMs [otherTask, exampleTask] 1704099605000
                 initialScanner))"
proof -
  have h1: "1000 \<le> 1704099605000 - lastCheckTime initialScanner"
    by (simp add: initialScanner_def)
  have h2: "distinct (map task_id [otherTask, exampleTask])"
    by (simp add: exampleTask_def otherTask_def)
  have h3: "exampleTask \<in> set [otherTask, exampleTask]" by simp
  have h4: "eligible utcDueTimeMs 1704099605000 (checkedTasks initialScanner) exampleTask"
    by (simp add: eligible_def exampleTask_def initialScanner_def host_eval)
  from h1 h2 h3 h4
    selection_characterised[of exampleTask utcDueTimeMs "[otherTask, exampleTask]"
      1704099605000 initialScanner]
  show ?thesis by blast
qed

text \<open>
  C2: once \<open>reminder_shown\<close> is true for a task in the lists the scanner is given, the scanner
  never selects it again, however many invocations follow and whatever else happens to the
  hook: the trace holds no notification and no update for its id.
\<close>

theorem shown_task_never_selected:
  assumes "\<forall>ev \<in> set evs. shownIn k ev"
  shows "k \<notin> effect_task_id ` set (snd (runHook dueMs evs s))"
  using assms
proof (induction evs arbitrary: s)
  case Nil
  then show ?case by simp
next
  case (Cons ev evs)
  have "k \<notin> effect_task_id ` set (snd (hookStep dueMs ev s))"
  proof
    assume "k \<in> effect_task_id ` set (snd (hookStep dueMs ev s))"
    then obtain e where e: "e \<in> set (snd (hookStep dueMs ev s))" "effect_task_id e = k"
      by auto
    from hookStep_sound[OF e(1)] obtain L now t where t: "ev = Check L now" "t \<in> set L"
      "eligible dueMs now (checkedTasks s) t" "e \<in> set (deliver t)"
      by blast
    from deliver_id[OF t(4)] e(2) have "task_id t = k" by simp
    with Cons.prems t(1,2) have "reminder_shown t" by simp
    with t(3) show False by (auto simp: eligible_def split: option.splits)
  qed
  moreover from Cons.prems
  have "k \<notin> effect_task_id ` set (snd (runHook dueMs evs (fst (hookStep dueMs ev s))))"
    by (intro Cons.IH) simp
  ultimately show ?case
    by (simp only: runHook_Cons_snd set_append image_Un Un_iff) blast
qed

theorem shown_task_never_selected_witness:
  "shownIn ''task_1'' (Check [shownTask] 1704099605000) \<and>
   shownIn ''task_1'' (ResetCompleted [shownTask]) \<and>
   shownIn ''task_1'' (Check [shownTask, otherTask] 1704099607000) \<and>
   ''task_1'' \<notin> effect_task_id ` set (snd (runHook utcDueTimeMs
      [Check [shownTask] 1704099605000, ResetCompleted [shownTask],
       Check [shownTask, otherTask] 1704099607000] initialScanner))"
proof -
  have h1: "shownIn ''task_1'' (Check [shownTask] 1704099605000)"
    by (simp add: shownTask_def)
  have h2: "shownIn ''task_1'' (ResetCompleted [shownTask])" by simp
  have h3: "shownIn ''task_1'' (Check [shownTask, otherTask] 1704099607000)"
    by (simp add: shownTask_def otherTask_def)
  from h1 h2 h3
  have h: "\<forall>ev \<in> set [Check [shownTask] 1704099605000, ResetCompleted [shownTask],
       Check [shownTask, otherTask] 1704099607000]. shownIn ''task_1'' ev"
    by (simp only: list.set ball_simps)
  from h1 h2 h3 shown_task_never_selected[OF h, of utcDueTimeMs initialScanner]
  show ?thesis by blast
qed

text \<open>
  C3: in the trace of the hook, an update \<open>reminder_shown = true\<close> for a task is never issued
  before the notification of that task: wherever an \<open>UpdateTask\<close> for an id stands, the call
  just before it is \<open>onReminderTriggered\<close> for a task with that id.
\<close>

theorem notification_precedes_update:
  assumes "i < length (snd (runHook dueMs evs s))"
      and "snd (runHook dueMs evs s) ! i = UpdateTask k u"
  shows "0 < i \<and> (\<exists>t. snd (runHook dueMs evs s) ! (i - 1) = Notify t \<and> task_id t = k)"
  using wellPaired_runHook assms by (rule wellPaired_nth)

theorem notification_precedes_update_witness:
  "(1 :: nat) < length (snd (runHook utcDueTimeMs [Check [exampleTask] 1704099605000]
                               initialScanner)) \<and>
   snd (runHook utcDueTimeMs [Check [exampleTask] 1704099605000] initialScanner) ! 1 =
     UpdateTask ''task_1'' (noUpdates\<lparr> u_reminder_shown := Some True \<rparr>) \<and>
   (\<exists>t. snd (runHook utcDueTimeMs [Check [exampleTask] 1704099605000] initialScanner) ! (1 - 1)
          = Notify t \<and> task_id t = ''task_1'')"
proof -
  have h1: "(1 :: nat) < length (snd (runHook utcDueTimeMs [Check [exampleTask] 1704099605000]
                               initialScanner))"
    by (simp only: example_run) simp
  have h2: "snd (runHook utcDueTimeMs [Check [exampleTask] 1704099605000] initialScanner) ! 1 =
     UpdateTask ''task_1'' (noUpdates\<lparr> u_reminder_shown := Some True \<rparr>)"
    by (simp only: example_run) simp
  from h1 h2 notification_precedes_update[OF h1 h2]
  show ?thesis by blast
qed

text \<open>
  C5: an invocation that comes less than 1000 ms (the polling interval) after an evaluation
  does nothing: it leaves the handled set and the time of the last check as they were and
  makes no call, whatever its task list holds.
\<close>

theorem throttle_holds:
  assumes "1000 \<le> t1 - lastCheckTime s" and "t2 - t1 < 1000"
  shows "checkReminders dueMs L2 t2 (fst (checkReminders dueMs L1 t1 s)) =
           (fst (checkReminders dueMs L1 t1 s), [])"
proof -
  from assms(1) have "lastCheckTime (fst (checkReminders dueMs L1 t1 s)) = t1"
    by (simp add: checkReminders_last)
  with assms(2) show ?thesis by (simp add: checkReminders_def)
qed

theorem throttle_holds_witness:
  "1000 \<le> 1704099605000 - lastCheckTime initialScanner \<and>
   (1704099605400 :: int) - 1704099605000 < 1000 \<and>
   checkReminders utcDueTimeMs [otherTask] 1704099605400
       (fst (checkReminders utcDueTimeMs [exampleTask] 1704099605000 initialScanner)) =
     (fst (checkReminders utcDueTimeMs [exampleTask] 1704099605000 initialScanner), [])"
proof -
  have h1: "1000 \<le> 1704099605000 - lastCheckTime initialScanner"
    by (simp add: initialScanner_def)
  have h2: "(1704099605400 :: int) - 1704099605000 < 1000" by simp
  from h1 h2 throttle_holds[OF h1 h2, of utcDueTimeMs "[otherTask]" "[exampleTask]"]
  show ?thesis by blast
qed

text \<open>
  C6: a completed task is never selected, whatever its \<open>reminder_shown\<close> flag, its due time,
  the time of the invocation and the state of the scanner; in a list with pairwise distinct
  ids no call at all is made for its id.
\<close>

theorem completed_never_selected:
  assumes "completed t"
  shows "Notify t \<notin> set (snd (checkReminders dueMs L now s)) \<and>
         (t \<in> set L \<and> distinct (map task_id L) \<longrightarrow>
            task_id t \<notin> effect_task_id ` set (snd (checkReminders dueMs L now s)))"
proof (intro conjI impI)
  show "Notify t \<notin> set (snd (checkReminders dueMs L now s))"
  proof
    assume "Notify t \<in> set (snd (checkReminders dueMs L now s))"
    from checkReminders_sound[OF this] obtain t' where
      "eligible dueMs now (checkedTasks s) t'" "Notify t \<in> set (deliver t')"
      by blast
    then have "eligible dueMs now (checkedTasks s) t" by (simp add: deliver_def)
    with assms show False by (auto simp: eligible_def split: option.splits)
  qed
next
  assume h: "t \<in> set L \<and> distinct (map task_id L)"
  show "task_id t \<notin> effect_task_id ` set (snd (checkReminders dueMs L now s))"
  proof
    assume "task_id t \<in> effect_task_id ` set (snd (checkReminders dueMs L now s))"
    then obtain e where e: "e \<in> set (snd (checkReminders dueMs L now s))"
      "effect_task_id e = task_id t"
      by auto
    from checkReminders_sound[OF e(1)] obtain t' where t': "t' \<in> set L"
      "eligible dueMs now (checkedTasks s) t'" "e \<in> set (deliver t')"
      by blast
    from deliver_id[OF t'(3)] e(2) have "task_id t' = task_id t" by simp
    with h t'(1) have "t' = t" by (meson distinct_map inj_onD)
    with t'(2) assms show False by (auto simp: eligible_def split: option.splits)
  qed
qed

theorem completed_never_selected_witness:
  "completed doneTask \<and>
   Notify doneTask \<notin>
     set (snd (checkReminders utcDueTimeMs [doneTask] 1704099605000 initialScanner)) \<and>
   task_id doneTask \<notin> effect_task_id `
     set (snd (checkReminders utcDueTimeMs [doneTask] 1704099605000 initialScanner))"
proof -
  have c: "completed doneTask" by (simp add: doneTask_def)
  have d: "doneTask \<in> set [doneTask] \<and> distinct (map task_id [doneTask])" by simp
  from completed_never_selected[OF c, of utcDueTimeMs "[doneTask]" 1704099605000
         initialScanner] c d
  show ?thesis by blast
qed

section \<open>Delivery and the handled set\<close>

text \<open>
  C4, as stated, fails: the handled marker of a task whose write failed is released when the
  task is seen completed, and the notification fires a second time in the same process.
  The example task fires at 09:00:05 and its write fails (the store cannot be opened, the
  durable record is unchanged). The user completes the task at 09:00:08 and marks it
  incomplete at 09:00:12; the evaluation that follows notifies again.
\<close>

theorem rearmed_after_failed_write:
  "\<not> snd (hook_updateTask storeDown ''2024-01-01T09:00:05.000Z'' ''task_1''
             (noUpdates\<lparr> u_reminder_shown := Some True \<rparr>) appStart) \<and>
   db afterFailedWrite = db appStart \<and>
   snd (runHook utcDueTimeMs
        [Check (tasks appStart) 1704099605000, ResetCompleted (tasks appStart),
         Check (tasks afterComplete) 1704099608000, ResetCompleted (tasks afterComplete),
         Check (tasks afterUncomplete) 1704099612000, ResetCompleted (tasks afterUncomplete)]
        initialScanner) =
     [Notify exampleTask,
      UpdateTask ''task_1'' (noUpdates\<lparr> u_reminder_shown := Some True \<rparr>),
      Notify (exampleTask\<lparr> updated_at := ''2024-01-01T09:00:12.000Z'' \<rparr>),
      UpdateTask ''task_1'' (noUpdates\<lparr> u_reminder_shown := Some True \<rparr>)]"
proof -
  have a: "\<not> snd (hook_updateTask storeDown ''2024-01-01T09:00:05.000Z'' ''task_1''
             (noUpdates\<lparr> u_reminder_shown := Some True \<rparr>) appStart)"
    by (simp add: hook_updateTask_def updateTask_def storeDown_def)
  have b: "db afterFailedWrite = db appStart"
    by (simp add: after_failed_write)
  have c: "snd (runHook utcDueTimeMs
        [Check (tasks appStart) 1704099605000, ResetCompleted (tasks appStart),
         Check (tasks afterComplete) 1704099608000, ResetCompleted (tasks afterComplete),
         Check (tasks afterUncomplete) 1704099612000, ResetCompleted (tasks afterUncomplete)]
        initialScanner) =
     [Notify exampleTask,
      UpdateTask ''task_1'' (noUpdates\<lparr> u_reminder_shown := Some True \<rparr>),
      Notify (exampleTask\<lparr> updated_at := ''2024-01-01T09:00:12.000Z'' \<rparr>),
      UpdateTask ''task_1'' (noUpdates\<lparr> u_reminder_shown := Some True \<rparr>)]"
    unfolding after_complete_tasks after_uncomplete_tasks
    by (simp add: appStart_def scan_eval host_eval resetCompleted_def)
  from a b c show ?thesis by blast
qed

text \<open>
  C4 (amended): when the scanner has selected a task and the store update setting
  \<open>reminder_shown = true\<close> fails, the hook reports the failure and leaves the durable store
  and the in-memory task list as they were, so the durable flag keeps its value; the id of
  the task is in the handled set and stays there, and no later invocation of the scanner
  notifies or updates that task, for as long as the second effect of the hook is not given a
  task list in which the task is completed.
\<close>

theorem failed_update_keeps_marker:
  assumes sel: "Notify t \<in> set (snd (checkReminders dueMs L now s))"
      and fail: "updateTask env nowIso (task_id t)
                   (noUpdates\<lparr> u_reminder_shown := Some True \<rparr>) (db a) = Inl err"
      and quiet: "\<forall>ev \<in> set evs. notCompletedIn (task_id t) ev"
  shows "\<not> snd (hook_updateTask env nowIso (task_id t)
                  (noUpdates\<lparr> u_reminder_shown := Some True \<rparr>) a) \<and>
         db (fst (hook_updateTask env nowIso (task_id t)
                  (noUpdates\<lparr> u_reminder_shown := Some True \<rparr>) a)) = db a \<and>
         tasks (fst (hook_updateTask env nowIso (task_id t)
                  (noUpdates\<lparr> u_reminder_shown := Some True \<rparr>) a)) = tasks a \<and>
         task_id t \<in> checkedTasks (fst (checkReminders dueMs L now s)) \<and>
         task_id t \<in> checkedTasks (fst (runHook dueMs evs (fst (checkReminders dueMs L now s)))) \<and>
         task_id t \<notin> effect_task_id `
            set (snd (runHook dueMs evs (fst (checkReminders dueMs L now s))))"
proof -
  from checkReminders_marks[OF sel]
  have m: "task_id t \<in> checkedTasks (fst (checkReminders dueMs L now s))" by simp
  from runHook_handled[OF m quiet] m fail show ?thesis
    by (simp add: hook_updateTask_def)
qed

theorem failed_update_keeps_marker_witness:
  "Notify exampleTask \<in>
     set (snd (checkReminders utcDueTimeMs [exampleTask] 1704099605000 initialScanner)) \<and>
   updateTask storeDown ''2024-01-01T09:00:05.000Z'' (task_id exampleTask)
     (noUpdates\<lparr> u_reminder_shown := Some True \<rparr>) (db appStart) = Inl OpenError \<and>
   notCompletedIn (task_id exampleTask) (Check [exampleTask] 1704099606000) \<and>
   notCompletedIn (task_id exampleTask) (ResetCompleted [exampleTask]) \<and>
   notCompletedIn (task_id exampleTask) (Check [exampleTask] 1704099607000) \<and>
   db (fst (hook_updateTask storeDown ''2024-01-01T09:00:05.000Z'' (task_id exampleTask)
              (noUpdates\<lparr> u_reminder_shown := Some True \<rparr>) appStart)) = db appStart \<and>
   task_id exampleTask \<notin> effect_task_id ` set (snd (runHook utcDueTimeMs
       [Check [exampleTask] 1704099606000, ResetCompleted [exampleTask],
        Check [exampleTask] 1704099607000]
       (fst (checkReminders utcDueTimeMs [exampleTask] 1704099605000 initialScanner))))"
proof -
  have h1: "Notify exampleTask \<in>
     set (snd (checkReminders utcDueTimeMs [exampleTask] 1704099605000 initialScanner))"
    by (simp only: example_first_tick) simp
  have h2: "updateTask storeDown ''2024-01-01T09:00:05.000Z'' (task_id exampleTask)
     (noUpdates\<lparr> u_reminder_shown := Some True \<rparr>) (db appStart) = Inl OpenError"
    by (simp add: updateTask_def storeDown_def)
  have h3: "notCompletedIn (task_id exampleTask) (Check [exampleTask] 1704099606000)"
    by simp
  have h4: "notCompletedIn (task_id exampleTask) (ResetCompleted [exampleTask])"
    by (simp add: exampleTask_def)
  have h5: "notCompletedIn (task_id exampleTask) (Check [exampleTask] 1704099607000)"
    by simp
  from h3 h4 h5
  have h: "\<forall>ev \<in> set [Check [exampleTask] 1704099606000, ResetCompleted [exampleTask],
        Check [exampleTask] 1704099607000]. notCompletedIn (task_id exampleTask) ev"
    by (simp only: list.set ball_simps)
  from h1 h2 h3 h4 h5 failed_update_keeps_marker[OF h1 h2 h]
  show ?thesis by blast
qed

text \<open>
  C7: when the task list shows a task completed, the second effect removes its id from the
  handled set. When the task is then incomplete again, with no reminder shown and its due
  time reached no more than 60 seconds ago, the next evaluation that follows (an invocation
  at least 1000 ms after the last evaluation, over a list with pairwise distinct ids, with
  no delivery for the task in between) selects it: the notification fires and the update is
  issued again. The events \<open>mid\<close> between the reset and that evaluation are arbitrary:
  throttled invocations, evaluations that still see the task completed, further resets.
\<close>

theorem uncompleted_task_rearmed:
  assumes "tc \<in> set L1" and "completed tc" and "task_id tc = task_id t"
      and "task_id t \<notin> effect_task_id ` set (snd (runHook dueMs mid (resetCompleted L1 s)))"
      and "1000 \<le> now - lastCheckTime (fst (runHook dueMs mid (resetCompleted L1 s)))"
      and "distinct (map task_id L2)" and "t \<in> set L2"
      and "\<not> completed t" and "\<not> reminder_shown t"
      and "due_date t = Some d" and "d \<noteq> []" and "due_time t = Some tm" and "tm \<noteq> []"
      and "dueMs d tm = Some T" and "T \<le> now" and "now - T \<le> 60000"
  shows "task_id t \<notin> checkedTasks (resetCompleted L1 s) \<and>
         Notify t \<in> set (snd (checkReminders dueMs L2 now
                                 (fst (runHook dueMs mid (resetCompleted L1 s))))) \<and>
         UpdateTask (task_id t) (noUpdates\<lparr> u_reminder_shown := Some True \<rparr>)
           \<in> set (snd (checkReminders dueMs L2 now
                          (fst (runHook dueMs mid (resetCompleted L1 s)))))"
proof -
  let ?s1 = "resetCompleted L1 s"
  let ?s2 = "fst (runHook dueMs mid ?s1)"
  from assms(1,2) have "task_id tc \<in> task_id ` {x \<in> set L1. completed x}"
    by blast
  with assms(3) have r: "task_id t \<notin> checkedTasks ?s1"
    by (simp add: resetCompleted_checked)
  from runHook_unmarked[OF r assms(4)] have r2: "task_id t \<notin> checkedTasks ?s2" .
  with assms have el: "eligible dueMs now (checkedTasks ?s2) t"
    by (simp add: eligible_def)
  from assms(5) have nt: "\<not> now - lastCheckTime ?s2 < 1000" by simp
  from forEach_complete[OF assms(6,7) el]
  have "set (deliver t) \<subseteq> set (snd (checkReminders dueMs L2 now ?s2))"
    using nt by (simp add: checkReminders_snd)
  with r show ?thesis by (auto simp: deliver_def)
qed

theorem uncompleted_task_rearmed_witness:
  "doneTask \<in> set [doneTask] \<and> completed doneTask \<and> task_id doneTask = task_id exampleTask \<and>
   task_id exampleTask \<in> checkedTasks firedScanner \<and>
   task_id exampleTask \<notin> checkedTasks (resetCompleted [doneTask] firedScanner) \<and>
   Notify exampleTask \<in> set (snd (checkReminders utcDueTimeMs [otherTask, exampleTask]
     1704099609400
     (fst (runHook utcDueTimeMs
             [Check [exampleTask] 1704099608400, ResetCompleted [exampleTask]]
             (resetCompleted [doneTask] firedScanner)))))"
proof -
  let ?mid = "[Check [exampleTask] 1704099608400, ResetCompleted [exampleTask]]"
  have a1: "doneTask \<in> set [doneTask]" by simp
  have a2: "completed doneTask" by (simp add: doneTask_def)
  have a3: "task_id doneTask = task_id exampleTask" by (simp add: doneTask_def)
  have a4: "task_id exampleTask \<notin> effect_task_id `
      set (snd (runHook utcDueTimeMs ?mid (resetCompleted [doneTask] firedScanner)))"
    by (simp only: example_mid) simp
  have a5: "1000 \<le> 1704099609400 -
      lastCheckTime (fst (runHook utcDueTimeMs ?mid (resetCompleted [doneTask] firedScanner)))"
    by (simp only: example_mid) simp
  have a6: "distinct (map task_id [otherTask, exampleTask])"
    by (simp add: exampleTask_def otherTask_def)
  have a7: "exampleTask \<in> set [otherTask, exampleTask]" by simp
  have a8: "\<not> completed exampleTask" "\<not> reminder_shown exampleTask"
    "due_date exampleTask = Some ''2024-01-01''" "''2024-01-01'' \<noteq> []"
    "due_time exampleTask = Some ''09:00''" "''09:00'' \<noteq> []"
    by (simp_all add: exampleTask_def)
  have a9: "utcDueTimeMs ''2024-01-01'' ''09:00'' = Some 1704099600000"
    by (simp add: host_eval)
  have a10: "(1704099600000 :: int) \<le> 1704099609400"
    "(1704099609400 :: int) - 1704099600000 \<le> 60000" by simp_all
  have m: "task_id exampleTask \<in> checkedTasks firedScanner"
    by (simp add: fired_scanner exampleTask_def)
  from a1 a2 a3 m
    uncompleted_task_rearmed[where dueMs = utcDueTimeMs and d = "''2024-01-01''"
      and tm = "''09:00''", OF a1 a2 a3 a4 a5 a6 a7 a8 a9 a10]
  show ?thesis by blast
qed


section \<open>The store\<close>

text \<open>
  C8: \<open>updateTask\<close> on an existing task does not reset \<open>reminder_shown\<close> when the due fields
  change. With the store available it succeeds, the stored task takes the supplied fields
  and keeps every other field, so an update that does not mention \<open>reminder_shown\<close> leaves
  the flag as it was (true stays true); the id stays the original one even if the update
  names another, \<open>updated_at\<close> is the time of the call, and no other record changes.
\<close>

theorem updateTask_merges_supplied_fields:
  assumes "store_get k st = Some existing" and "opens env" and "reads env" and "writes env"
  shows "\<exists>t' st'. updateTask env nowIso k updates st = Inr (t', st') \<and>
           store_get k st' = Some t' \<and>
           (\<forall>k'. k' \<noteq> k \<longrightarrow> store_get k' st' = store_get k' st) \<and>
           task_id t' = task_id existing \<and> task_id t' = k \<and> updated_at t' = nowIso \<and>
           (u_reminder_shown updates = None \<longrightarrow> reminder_shown t' = reminder_shown existing) \<and>
           reminder_shown t' =
             (case u_reminder_shown updates of None \<Rightarrow> reminder_shown existing | Some v \<Rightarrow> v) \<and>
           title t' = (case u_title updates of None \<Rightarrow> title existing | Some v \<Rightarrow> v) \<and>
           description t' =
             (case u_description updates of None \<Rightarrow> description existing | Some v \<Rightarrow> v) \<and>
           due_date t' = (case u_due_date updates of None \<Rightarrow> due_date existing | Some v \<Rightarrow> v) \<and>
           due_time t' = (case u_due_time updates of None \<Rightarrow> due_time existing | Some v \<Rightarrow> v) \<and>
           completed t' = (case u_completed updates of None \<Rightarrow> completed existing | Some v \<Rightarrow> v) \<and>
           created_at t' =
             (case u_created_at updates of None \<Rightarrow> created_at existing | Some v \<Rightarrow> v)"
proof -
  let ?t = "(spread existing updates)\<lparr> updated_at := nowIso, task_id := task_id existing \<rparr>"
  from assms(1) have k: "task_id existing = k" by (rule store_get_id)
  from assms have r: "updateTask env nowIso k updates st = Inr (?t, store_put ?t st)"
    by (simp add: updateTask_def Let_def)
  have idt: "task_id ?t = k" using k by simp
  have g: "store_get k (store_put ?t st) = Some ?t"
    using store_get_put_same[of ?t st] idt by simp
  have o: "\<forall>k'. k' \<noteq> k \<longrightarrow> store_get k' (store_put ?t st) = store_get k' st"
    using store_get_put_other[of _ ?t st] idt by simp
  have f: "updated_at ?t = nowIso \<and>
           (u_reminder_shown updates = None \<longrightarrow> reminder_shown ?t = reminder_shown existing) \<and>
           reminder_shown ?t =
             (case u_reminder_shown updates of None \<Rightarrow> reminder_shown existing | Some v \<Rightarrow> v) \<and>
           title ?t = (case u_title updates of None \<Rightarrow> title existing | Some v \<Rightarrow> v) \<and>
           description ?t =
             (case u_description updates of None \<Rightarrow> description existing | Some v \<Rightarrow> v) \<and>
           due_date ?t = (case u_due_date updates of None \<Rightarrow> due_date existing | Some v \<Rightarrow> v) \<and>
           due_time ?t = (case u_due_time updates of None \<Rightarrow> due_time existing | Some v \<Rightarrow> v) \<and>
           completed ?t = (case u_completed updates of None \<Rightarrow> completed existing | Some v \<Rightarrow> v) \<and>
           created_at ?t =
             (case u_created_at updates of None \<Rightarrow> created_at existing | Some v \<Rightarrow> v)"
    by (simp add: spread_def)
  from r g o f k idt show ?thesis by (intro exI[of _ ?t] exI[of _ "store_put ?t st"]) simp
qed

theorem updateTask_merges_supplied_fields_witness:
  "store_get ''task_1'' shownStore = Some shownTask \<and> reminder_shown shownTask \<and>
   u_reminder_shown dueChange = None \<and> u_id dueChange = Some ''task_7'' \<and>
   (\<exists>t' st'. updateTask allOk ''2024-01-01T09:30:00.000Z'' ''task_1'' dueChange shownStore =
               Inr (t', st') \<and>
            store_get ''task_1'' st' = Some t' \<and> store_get ''task_2'' st' = Some otherTask \<and>
            task_id t' = ''task_1'' \<and> reminder_shown t' \<and>
            due_date t' = Some ''2024-02-01'' \<and> due_time t' = Some ''10:30'' \<and>
            title t' = ''Call the bank'' \<and> updated_at t' = ''2024-01-01T09:30:00.000Z'')"
proof -
  have g: "store_get ''task_1'' shownStore = Some shownTask"
    by (simp add: store_get_def shownStore_def shownTask_def exampleTask_def)
  have g2: "store_get ''task_2'' shownStore = Some otherTask"
    by (simp add: store_get_def shownStore_def shownTask_def exampleTask_def otherTask_def)
  have o: "opens allOk" "reads allOk" "writes allOk" by (simp_all add: allOk_def)
  have s: "reminder_shown shownTask" "title shownTask = ''Call the bank''"
    by (simp_all add: shownTask_def exampleTask_def)
  have u: "u_reminder_shown dueChange = None" "u_id dueChange = Some ''task_7''"
    "u_due_date dueChange = Some (Some ''2024-02-01'')"
    "u_due_time dueChange = Some (Some ''10:30'')" "u_title dueChange = None"
    by (simp_all add: dueChange_def noUpdates_def)
  have "\<exists>t' st'. updateTask allOk ''2024-01-01T09:30:00.000Z'' ''task_1'' dueChange shownStore =
               Inr (t', st') \<and>
           store_get ''task_1'' st' = Some t' \<and>
           (\<forall>k'. k' \<noteq> ''task_1'' \<longrightarrow> store_get k' st' = store_get k' shownStore) \<and>
           task_id t' = task_id shownTask \<and> task_id t' = ''task_1'' \<and>
           updated_at t' = ''2024-01-01T09:30:00.000Z'' \<and>
           (u_reminder_shown dueChange = None \<longrightarrow> reminder_shown t' = reminder_shown shownTask) \<and>
           reminder_shown t' =
             (case u_reminder_shown dueChange of None \<Rightarrow> reminder_shown shownTask | Some v \<Rightarrow> v) \<and>
           title t' = (case u_title dueChange of None \<Rightarrow> title shownTask | Some v \<Rightarrow> v) \<and>
           description t' =
             (case u_description dueChange of None \<Rightarrow> description shownTask | Some v \<Rightarrow> v) \<and>
           due_date t' = (case u_due_date dueChange of None \<Rightarrow> due_date shownTask | Some v \<Rightarrow> v) \<and>
           due_time t' = (case u_due_time dueChange of None \<Rightarrow> due_time shownTask | Some v \<Rightarrow> v) \<and>
           completed t' = (case u_completed dueChange of None \<Rightarrow> completed shownTask | Some v \<Rightarrow> v) \<and>
           created_at t' =
             (case u_created_at dueChange of None \<Rightarrow> created_at shownTask | Some v \<Rightarrow> v)"
    by (rule updateTask_merges_supplied_fields[OF g o])
  then obtain t' st' where r:
    "updateTask allOk ''2024-01-01T09:30:00.000Z'' ''task_1'' dueChange shownStore = Inr (t', st')"
    "store_get ''task_1'' st' = Some t'"
    "\<forall>k'. k' \<noteq> ''task_1'' \<longrightarrow> store_get k' st' = store_get k' shownStore"
    "task_id t' = ''task_1''" "updated_at t' = ''2024-01-01T09:30:00.000Z''"
    "u_reminder_shown dueChange = None \<longrightarrow> reminder_shown t' = reminder_shown shownTask"
    "title t' = (case u_title dueChange of None \<Rightarrow> title shownTask | Some v \<Rightarrow> v)"
    "due_date t' = (case u_due_date dueChange of None \<Rightarrow> due_date shownTask | Some v \<Rightarrow> v)"
    "due_time t' = (case u_due_time dueChange of None \<Rightarrow> due_time shownTask | Some v \<Rightarrow> v)"
    by (elim exE conjE)
  from r(3) g2 have a: "store_get ''task_2'' st' = Some otherTask" by simp
  from r(6) u(1) s(1) have b: "reminder_shown t'" by simp
  from r(7) u(5) s(2) have c: "title t' = ''Call the bank''" by simp
  from r(8) u(3) have d: "due_date t' = Some ''2024-02-01''" by simp
  from r(9) u(4) have e: "due_time t' = Some ''10:30''" by simp
  from r(1,2,4,5) a b c d e
  have "\<exists>t' st'. updateTask allOk ''2024-01-01T09:30:00.000Z'' ''task_1'' dueChange shownStore =
               Inr (t', st') \<and>
            store_get ''task_1'' st' = Some t' \<and> store_get ''task_2'' st' = Some otherTask \<and>
            task_id t' = ''task_1'' \<and> reminder_shown t' \<and>
            due_date t' = Some ''2024-02-01'' \<and> due_time t' = Some ''10:30'' \<and>
            title t' = ''Call the bank'' \<and> updated_at t' = ''2024-01-01T09:30:00.000Z''"
    by (intro exI[of _ t'] exI[of _ st'] conjI)
  with g s(1) u(1,2) show ?thesis by (intro conjI)
qed


text \<open>
  C9: \<open>getAllTasks\<close> returns the stored tasks newest created first: when every stored
  \<open>created_at\<close> is a valid date, the result holds the same tasks and each task's creation
  time is greater than or equal to that of the task after it. A task created by \<open>addTask\<close>
  is stored with \<open>completed = false\<close> and \<open>reminder_shown = false\<close>.
\<close>

theorem getAllTasks_newest_first:
  "(opens env \<and> reads env \<and> (\<forall>x \<in> set st. dateMs (created_at x) \<noteq> None) \<longrightarrow>
      (\<exists>r. getAllTasks env dateMs st = Inr r \<and> set r = set st \<and> length r = length st \<and>
           (\<forall>i. Suc i < length r \<longrightarrow>
              (\<exists>a b. dateMs (created_at (r ! i)) = Some a \<and>
                     dateMs (created_at (r ! Suc i)) = Some b \<and> b \<le> a)))) \<and>
   (addTask env stamp rnd nowIso taskData st = Inr (t, st') \<longrightarrow>
      \<not> completed t \<and> \<not> reminder_shown t \<and> store_get (task_id t) st' = Some t)"
proof (rule conjI; rule impI)
  assume h: "opens env \<and> reads env \<and> (\<forall>x \<in> set st. dateMs (created_at x) \<noteq> None)"
  let ?r = "jsSort (compareCreated dateMs) st"
  from h have r: "getAllTasks env dateMs st = Inr ?r" by (simp add: getAllTasks_def)
  from h have s: "sorted_wrt (newerEq dateMs) ?r" by (intro sorted_jsSort) simp
  have "\<forall>i. Suc i < length ?r \<longrightarrow>
       (\<exists>a b. dateMs (created_at (?r ! i)) = Some a \<and>
              dateMs (created_at (?r ! Suc i)) = Some b \<and> b \<le> a)"
  proof (intro allI impI)
    fix i assume "Suc i < length ?r"
    with s have "newerEq dateMs (?r ! i) (?r ! Suc i)"
      by (simp add: sorted_wrt_iff_nth_less)
    then show "\<exists>a b. dateMs (created_at (?r ! i)) = Some a \<and>
              dateMs (created_at (?r ! Suc i)) = Some b \<and> b \<le> a"
      by (auto simp: newerEq_def split: option.splits)
  qed
  with r show "\<exists>r. getAllTasks env dateMs st = Inr r \<and> set r = set st \<and> length r = length st \<and>
           (\<forall>i. Suc i < length r \<longrightarrow>
              (\<exists>a b. dateMs (created_at (r ! i)) = Some a \<and>
                     dateMs (created_at (r ! Suc i)) = Some b \<and> b \<le> a))"
    by (simp add: set_jsSort length_jsSort)
next
  assume a: "addTask env stamp rnd nowIso taskData st = Inr (t, st')"
  then have c: "\<not> completed t \<and> \<not> reminder_shown t"
    by (auto simp: addTask_def Let_def split: if_splits)
  from a have "st' = insort_key task_id t st \<and> store_get (task_id t) st = None"
    by (auto simp: addTask_def Let_def split: if_splits)
  then have "store_get (task_id t) st' = Some t"
    by (auto simp: store_get_def find_None_iff intro!: find_insort_hit)
  with c show "\<not> completed t \<and> \<not> reminder_shown t \<and> store_get (task_id t) st' = Some t"
    by simp
qed

theorem getAllTasks_newest_first_witness:
  "opens allOk \<and> reads allOk \<and>
   isoMs (created_at exampleTask) = Some 1703924100000 \<and>
   isoMs (created_at otherTask) = Some 1704016800000 \<and>
   (\<exists>r. getAllTasks allOk isoMs exampleStore = Inr r \<and>
        (\<exists>a b. isoMs (created_at (r ! 0)) = Some a \<and>
               isoMs (created_at (r ! Suc 0)) = Some b \<and> b \<le> a)) \<and>
   addTask allOk ''1704067200000'' ''k3x9q2m1a'' ''2024-01-01T00:00:00.000Z'' milkData
       exampleStore = Inr (milkTask, [exampleTask, milkTask, otherTask]) \<and>
   \<not> completed milkTask \<and> \<not> reminder_shown milkTask \<and>
   store_get (task_id milkTask) [exampleTask, milkTask, otherTask] = Some milkTask"
proof -
  have o: "opens allOk \<and> reads allOk" by (simp add: allOk_def)
  have v1: "isoMs (created_at exampleTask) = Some 1703924100000"
    by (simp add: exampleTask_def iso_eval)
  have v2: "isoMs (created_at otherTask) = Some 1704016800000"
    by (simp add: otherTask_def iso_eval)
  from v1 v2 have v: "\<forall>x \<in> set exampleStore. isoMs (created_at x) \<noteq> None"
    by (simp add: exampleStore_def)
  note inst = getAllTasks_newest_first[of allOk exampleStore isoMs "''1704067200000''"
      "''k3x9q2m1a''" "''2024-01-01T00:00:00.000Z''" milkData milkTask
      "[exampleTask, milkTask, otherTask]"]
  from o v have A: "opens allOk \<and> reads allOk \<and>
      (\<forall>x \<in> set exampleStore. isoMs (created_at x) \<noteq> None)" by simp
  from inst[THEN conjunct1, THEN mp, OF A]
  obtain r where r: "getAllTasks allOk isoMs exampleStore = Inr r"
    "length r = length exampleStore"
    "\<forall>i. Suc i < length r \<longrightarrow>
        (\<exists>a b. isoMs (created_at (r ! i)) = Some a \<and>
               isoMs (created_at (r ! Suc i)) = Some b \<and> b \<le> a)"
    by (elim exE conjE)
  from r(2) have "Suc 0 < length r" by (simp add: exampleStore_def)
  with r(3) have "\<exists>a b. isoMs (created_at (r ! 0)) = Some a \<and>
               isoMs (created_at (r ! Suc 0)) = Some b \<and> b \<le> a" by (elim allE impE)
  with r(1) have p1: "\<exists>r. getAllTasks allOk isoMs exampleStore = Inr r \<and>
        (\<exists>a b. isoMs (created_at (r ! 0)) = Some a \<and>
               isoMs (created_at (r ! Suc 0)) = Some b \<and> b \<le> a)"
    by (intro exI[of _ r] conjI)
  from inst[THEN conjunct2, THEN mp, OF example_addTask]
  have p2: "\<not> completed milkTask \<and> \<not> reminder_shown milkTask \<and>
      store_get (task_id milkTask) [exampleTask, milkTask, otherTask] = Some milkTask" .
  from o v1 v2 p1 example_addTask p2 show ?thesis by simp
qed


text \<open>
  C10: \<open>deleteTask\<close> for an id that is not in the store resolves and leaves the store as it
  was, and it never rejects with \<open>TaskNotFound\<close>; \<open>updateTask\<close> for such an id rejects with
  \<open>TaskNotFound\<close>.
\<close>

theorem deleteTask_missing_id_succeeds:
  assumes "store_get k st = None"
  shows "(opens env \<and> writes env \<longrightarrow> deleteTask env k st = Inr st) \<and>
         (opens env \<and> reads env \<longrightarrow> updateTask env nowIso k updates st = Inl TaskNotFound) \<and>
         deleteTask env k st \<noteq> Inl TaskNotFound"
  using assms
  by (auto simp: deleteTask_def updateTask_def store_delete_absent)


theorem deleteTask_missing_id_succeeds_witness:
  "store_get ''task_9'' exampleStore = None \<and> opens allOk \<and> reads allOk \<and> writes allOk \<and>
   deleteTask allOk ''task_9'' exampleStore = Inr exampleStore \<and>
   updateTask allOk ''2024-01-01T09:30:00.000Z'' ''task_9'' dueChange exampleStore =
     Inl TaskNotFound"
proof -
  have g: "store_get ''task_9'' exampleStore = None"
    by (simp add: store_get_def exampleStore_def exampleTask_def otherTask_def)
  have o: "opens allOk \<and> reads allOk \<and> writes allOk" by (simp add: allOk_def)
  from g o deleteTask_missing_id_succeeds[OF g, of allOk "''2024-01-01T09:30:00.000Z''" dueChange]
  show ?thesis by blast
qed


end
